theory Spec2Isabelle
  imports Complex_Main
begin

section \<open>Characters and strings of the documents\<close>

text \<open>
  A document is a Python \<open>str\<close>. It is modelled as a \<open>string\<close> whose characters are the
  code points 0 to 255, so \<open>length\<close> counts what Python's \<open>len\<close> counts. The character
  predicates below are Python's Unicode predicates on these code points: \<open>is_space\<close> is
  \<open>str.isspace\<close> (which is also what \<open>\s\<close> and \<open>str.strip()\<close> use), \<open>is_alnum\<close> is
  the alphanumeric test behind \<open>\w\<close>. Documents with code points above 255 (Cyrillic
  text, for one) are outside the model.
\<close>

definition code :: "char \<Rightarrow> nat" where
  "code c = of_char c"

definition is_space :: "char \<Rightarrow> bool" where
  "is_space c = ((9 \<le> code c \<and> code c \<le> 13) \<or> (28 \<le> code c \<and> code c \<le> 32)
                 \<or> code c = 133 \<or> code c = 160)"

definition is_alnum :: "char \<Rightarrow> bool" where
  "is_alnum c = ((48 \<le> code c \<and> code c \<le> 57) \<or> (65 \<le> code c \<and> code c \<le> 90)
                 \<or> (97 \<le> code c \<and> code c \<le> 122)
                 \<or> code c = 170 \<or> code c = 178 \<or> code c = 179 \<or> code c = 181
                 \<or> code c = 185 \<or> code c = 186 \<or> (188 \<le> code c \<and> code c \<le> 190)
                 \<or> (192 \<le> code c \<and> code c \<le> 214) \<or> (216 \<le> code c \<and> code c \<le> 246)
                 \<or> 248 \<le> code c)"

definition is_word :: "char \<Rightarrow> bool" where
  "is_word c = (is_alnum c \<or> c = CHR ''_'')"

text \<open>\<open>str.strip()\<close>, \<open>str.lower()\<close> and \<open>str.endswith\<close>.\<close>

definition strip :: "string \<Rightarrow> string" where
  "strip s = rev (dropWhile is_space (rev (dropWhile is_space s)))"

definition lower_char :: "char \<Rightarrow> char" where
  "lower_char c = (if (65 \<le> code c \<and> code c \<le> 90) \<or> (192 \<le> code c \<and> code c \<le> 222 \<and> code c \<noteq> 215)
                   then char_of (code c + 32) else c)"

definition lower :: "string \<Rightarrow> string" where
  "lower s = map lower_char s"

definition endswith :: "string \<Rightarrow> string \<Rightarrow> bool" where
  "endswith s suf = (length suf \<le> length s \<and> drop (length s - length suf) s = suf)"

section \<open>The regular expressions of module \<open>re\<close>\<close>

text \<open>
  The analyzers are written with Python's \<open>re\<close>, a backtracking matcher. A pattern is a
  term of \<open>regex\<close>; the matcher \<open>ms\<close> lists every way the pattern can match at a position,
  in the order in which backtracking tries them, so the head of the list is the match
  \<open>re\<close> reports. A character class is a list of items; \<open>CRangeU\<close> is a range given by
  code points, for the ranges of the source that lie above 255.
\<close>

datatype citem = CChar char | CRange char char | CRangeU nat nat | CSpace | CWord

fun in_item :: "char \<Rightarrow> citem \<Rightarrow> bool" where
  "in_item c (CChar d) = (c = d)"
| "in_item c (CRange lo hi) = (code lo \<le> code c \<and> code c \<le> code hi)"
| "in_item c (CRangeU lo hi) = (lo \<le> code c \<and> code c \<le> hi)"
| "in_item c CSpace = is_space c"
| "in_item c CWord = is_word c"

datatype regex =
    Eps
  | Set "citem list"
  | NSet "citem list"
  | Seq regex regex
  | Alt regex regex
  | Star regex
  | LazyStar regex
  | Group nat regex
  | Backref nat
  | WordB
  | Bol
  | Eol
  | NotAhead regex

text \<open>
  The state of a match attempt: the character before the current position (\<open>None\<close> at
  the start of the string), the text from the current position on, and the groups
  captured so far.
\<close>

record mstate =
  prev :: "char option"
  rest :: string
  caps :: "nat \<rightharpoonup> string"

definition word_opt :: "char option \<Rightarrow> bool" where
  "word_opt x = (case x of None \<Rightarrow> False | Some c \<Rightarrow> is_word c)"

definition advance :: "nat \<Rightarrow> mstate \<Rightarrow> mstate" where
  "advance n st = (if n = 0 then st
     else st\<lparr>prev := Some (last (take n (rest st))), rest := drop n (rest st)\<rparr>)"

definition consumed :: "mstate \<Rightarrow> mstate \<Rightarrow> string" where
  "consumed st st' = take (length (rest st) - length (rest st')) (rest st)"

text \<open>
  \<open>Star\<close> is the greedy \<open>*\<close> and \<open>LazyStar\<close> is \<open>*?\<close>; an iteration that consumes
  nothing ends the loop (no loop body of the analyzers can match the empty string).
  \<open>WordB\<close> is \<open>\b\<close>, \<open>Bol\<close> is \<open>^\<close>, \<open>Eol\<close> is \<open>$\<close> (the end of the string, or just
  before a newline that ends the string), \<open>NotAhead\<close> is \<open>(?!...)\<close>, and a back-reference
  to a group that has not matched fails.
\<close>

function (sequential) ms :: "regex \<Rightarrow> mstate \<Rightarrow> mstate list" where
  "ms Eps st = [st]"
| "ms (Set cs) st = (case rest st of [] \<Rightarrow> []
     | c # r \<Rightarrow> if list_ex (in_item c) cs then [st\<lparr>prev := Some c, rest := r\<rparr>] else [])"
| "ms (NSet cs) st = (case rest st of [] \<Rightarrow> []
     | c # r \<Rightarrow> if list_ex (in_item c) cs then [] else [st\<lparr>prev := Some c, rest := r\<rparr>])"
| "ms (Seq r1 r2) st = concat (map (ms r2) (ms r1 st))"
| "ms (Alt r1 r2) st = ms r1 st @ ms r2 st"
| "ms (Star r) st =
     concat (map (\<lambda>st'. if length (rest st') < length (rest st) then ms (Star r) st' else [])
                 (ms r st)) @ [st]"
| "ms (LazyStar r) st =
     st # concat (map (\<lambda>st'. if length (rest st') < length (rest st) then ms (LazyStar r) st' else [])
                      (ms r st))"
| "ms (Group k r) st = map (\<lambda>st'. st'\<lparr>caps := (caps st')(k \<mapsto> consumed st st')\<rparr>) (ms r st)"
| "ms (Backref k) st = (case caps st k of None \<Rightarrow> []
     | Some u \<Rightarrow> if take (length u) (rest st) = u then [advance (length u) st] else [])"
| "ms WordB st =
     (if word_opt (prev st) \<noteq> word_opt (case rest st of [] \<Rightarrow> None | c # _ \<Rightarrow> Some c)
      then [st] else [])"
| "ms Bol st = (if prev st = None then [st] else [])"
| "ms Eol st = (if rest st = [] \<or> rest st = [CHR 0x0A] then [st] else [])"
| "ms (NotAhead r) st = (if ms r st = [] then [st] else [])"
  by pat_completeness auto
termination
  by (relation "measures [\<lambda>(r, st). size r, \<lambda>(r, st). length (rest st)]") auto

text \<open>The derived forms: \<open>r+\<close>, \<open>r?\<close>, a literal character, and a sequence.\<close>

definition Plus :: "regex \<Rightarrow> regex" where
  "Plus r = Seq r (Star r)"

definition Opt :: "regex \<Rightarrow> regex" where
  "Opt r = Alt r Eps"

definition Lit :: "char \<Rightarrow> regex" where
  "Lit c = Set [CChar c]"

fun Seqs :: "regex list \<Rightarrow> regex" where
  "Seqs [] = Eps"
| "Seqs [r] = r"
| "Seqs (r # rs) = Seq r (Seqs rs)"

text \<open>
  \<open>match_at r p s\<close> is the match of \<open>r\<close> that starts at the text \<open>s\<close>, with \<open>p\<close> the
  character before it: the number of characters matched and the groups.
\<close>

definition match_at :: "regex \<Rightarrow> char option \<Rightarrow> string \<Rightarrow> (nat \<times> (nat \<rightharpoonup> string)) option" where
  "match_at r p s = (case ms r \<lparr>prev = p, rest = s, caps = Map.empty\<rparr> of
       [] \<Rightarrow> None
     | st' # _ \<Rightarrow> Some (length s - length (rest st'), caps st'))"

text \<open>
  The scan shared by \<open>re.finditer\<close>, \<open>re.findall\<close>, \<open>re.split\<close> and \<open>re.sub\<close>: from left
  to right, the leftmost match is taken and the scan goes on behind it; a character at
  which nothing matches is passed over. The result cuts the text into the characters
  passed over and the matches found. No pattern of the analyzers matches the empty
  string; after an empty match the scan passes over one character.
\<close>

datatype piece = Skip char | Hit string "nat \<rightharpoonup> string"

function scan :: "regex \<Rightarrow> char option \<Rightarrow> string \<Rightarrow> piece list" where
  "scan r p [] = (case match_at r p [] of None \<Rightarrow> [] | Some (n, g) \<Rightarrow> [Hit [] g])"
| "scan r p (c # cs) = (case match_at r p (c # cs) of
       None \<Rightarrow> Skip c # scan r (Some c) cs
     | Some (n, g) \<Rightarrow>
         (if n = 0 then Hit [] g # Skip c # scan r (Some c) cs
          else Hit (take n (c # cs)) g
                 # scan r (Some (last (take n (c # cs)))) (drop n (c # cs))))"
  by pat_completeness auto
termination
  by (relation "measure (\<lambda>(r, p, s). length s)") auto

fun hits :: "piece list \<Rightarrow> (string \<times> (nat \<rightharpoonup> string)) list" where
  "hits [] = []"
| "hits (Skip c # ps) = hits ps"
| "hits (Hit m g # ps) = (m, g) # hits ps"

text \<open>\<open>re.finditer\<close>: the matches, each with its text and its groups.\<close>

definition finditer :: "regex \<Rightarrow> string \<Rightarrow> (string \<times> (nat \<rightharpoonup> string)) list" where
  "finditer r s = hits (scan r None s)"

text \<open>\<open>re.search(...)\<close> used as a condition: is there a match anywhere.\<close>

definition search :: "regex \<Rightarrow> string \<Rightarrow> bool" where
  "search r s = (finditer r s \<noteq> [])"

text \<open>A group of a match as \<open>re.findall\<close> reports it: the empty string when unset.\<close>

definition grp :: "(nat \<rightharpoonup> string) \<Rightarrow> nat \<Rightarrow> string" where
  "grp g k = (case g k of None \<Rightarrow> [] | Some u \<Rightarrow> u)"

text \<open>\<open>re.findall\<close> for a pattern without groups: the texts of the matches.\<close>

definition findall :: "regex \<Rightarrow> string \<Rightarrow> string list" where
  "findall r s = map fst (finditer r s)"

text \<open>\<open>re.sub\<close>: every match is replaced by what \<open>repl\<close> makes of it.\<close>

fun sub_pieces :: "(string \<Rightarrow> (nat \<rightharpoonup> string) \<Rightarrow> string) \<Rightarrow> piece list \<Rightarrow> string" where
  "sub_pieces repl [] = []"
| "sub_pieces repl (Skip c # ps) = c # sub_pieces repl ps"
| "sub_pieces repl (Hit m g # ps) = repl m g @ sub_pieces repl ps"

definition re_sub :: "regex \<Rightarrow> (string \<Rightarrow> (nat \<rightharpoonup> string) \<Rightarrow> string) \<Rightarrow> string \<Rightarrow> string" where
  "re_sub r repl s = sub_pieces repl (scan r None s)"

text \<open>
  \<open>re.split\<close>: the text between the matches; \<open>sep\<close> gives what a match itself adds to
  the list (nothing for a pattern without groups, the groups otherwise).
\<close>

fun split_pieces :: "(string \<Rightarrow> (nat \<rightharpoonup> string) \<Rightarrow> string list) \<Rightarrow> piece list \<Rightarrow> string
    \<Rightarrow> string list" where
  "split_pieces sep [] cur = [cur]"
| "split_pieces sep (Skip c # ps) cur = split_pieces sep ps (cur @ [c])"
| "split_pieces sep (Hit m g # ps) cur = cur # sep m g @ split_pieces sep ps []"

definition re_split :: "regex \<Rightarrow> (string \<Rightarrow> (nat \<rightharpoonup> string) \<Rightarrow> string list) \<Rightarrow> string
    \<Rightarrow> string list" where
  "re_split r sep s = split_pieces sep (scan r None s) []"

section \<open>The analyzer of \<open>base_analyzer.py\<close> and \<open>text_analyzer.py\<close>\<close>

subsection \<open>Construction and the text setter\<close>

text \<open>
  Python is dynamically typed: the constructor can be handed any value. The values that
  matter to \<open>not text or not isinstance(text, str)\<close> are modelled, with their truth
  value.
\<close>

datatype py_value =
    PyNone
  | PyBool bool
  | PyInt int
  | PyStr string
  | PyList "py_value list"

fun truthy :: "py_value \<Rightarrow> bool" where
  "truthy PyNone = False"
| "truthy (PyBool b) = b"
| "truthy (PyInt i) = (i \<noteq> 0)"
| "truthy (PyStr s) = (s \<noteq> [])"
| "truthy (PyList xs) = (xs \<noteq> [])"

fun isinstance_str :: "py_value \<Rightarrow> bool" where
  "isinstance_str (PyStr s) = True"
| "isinstance_str v = False"

datatype error = ValueError

text \<open>The attributes \<open>_text\<close> and \<open>_cached_sentences\<close> of an analyzer.\<close>

record analyzer =
  text_of :: string
  cached_sentences :: "string list option"

definition init :: "py_value \<Rightarrow> error + analyzer" where
  "init v = (if \<not> truthy v \<or> \<not> isinstance_str v then Inl ValueError
             else case v of PyStr s \<Rightarrow> Inr \<lparr>text_of = s, cached_sentences = None\<rparr>
                  | _ \<Rightarrow> Inl ValueError)"

definition set_text :: "analyzer \<Rightarrow> py_value \<Rightarrow> error + analyzer" where
  "set_text a v = (if \<not> truthy v \<or> \<not> isinstance_str v then Inl ValueError
             else case v of PyStr s \<Rightarrow> Inr (a\<lparr>text_of := s, cached_sentences := None\<rparr>)
                  | _ \<Rightarrow> Inl ValueError)"

subsection \<open>Sentences\<close>

text \<open>The class \<open>[.!?]\<close> and the pattern \<open>[.!?]+(?:\s+|$)\<close> of \<open>_split_into_sentences\<close>.\<close>

definition terminators :: "citem list" where
  "terminators = [CChar CHR ''.'', CChar CHR ''!'', CChar CHR ''?'']"

definition sentence_end :: regex where
  "sentence_end = Seq (Plus (Set terminators)) (Alt (Plus (Set [CSpace])) Eol)"

text \<open>
  \<open>re.split(r'([.!?]+(?:\s+|$))', self.text)\<close>: the one group encloses the whole pattern,
  so each match adds its own text to the list of parts.
\<close>

definition sentence_parts :: "string \<Rightarrow> string list" where
  "sentence_parts t = re_split (Group 1 sentence_end) (\<lambda>m g. [grp g 1]) t"

text \<open>
  The loop over the parts, with \<open>current_sentence\<close> and \<open>sentences\<close> as they stand
  before the part; the result is both after the last part.
\<close>

fun collect :: "string list \<Rightarrow> string \<Rightarrow> string list \<Rightarrow> string \<times> string list" where
  "collect [] current sentences = (current, sentences)"
| "collect (part # parts) current sentences =
     (let current1 = current @ part in
      if search sentence_end part
      then (if strip current1 \<noteq> [] then collect parts [] (sentences @ [strip current1])
            else collect parts [] sentences)
      else collect parts current1 sentences)"

definition split_into_sentences :: "string \<Rightarrow> string list" where
  "split_into_sentences t =
     (case collect (sentence_parts t) [] [] of
        (current, sentences) \<Rightarrow>
          if strip current \<noteq> [] then sentences @ [strip current] else sentences)"

text \<open>The property \<open>sentences\<close>: the list is computed on the first read and kept.\<close>

definition sentences :: "analyzer \<Rightarrow> string list \<times> analyzer" where
  "sentences a = (case cached_sentences a of
       None \<Rightarrow> (let ss = split_into_sentences (text_of a)
                in (ss, a\<lparr>cached_sentences := Some ss\<rparr>))
     | Some ss \<Rightarrow> (ss, a))"

text \<open>
  \<open>get_sentence_types\<close>: the dictionary has three keys, here the three fields, in the
  order of the source (declarative, interrogative, exclamatory).
\<close>

record sentence_types =
  declarative :: nat
  interrogative :: nat
  exclamatory :: nat

fun count_types :: "string list \<Rightarrow> sentence_types \<Rightarrow> sentence_types" where
  "count_types [] types = types"
| "count_types (sentence # ss) types =
     (if endswith sentence ''?'' then count_types ss (types\<lparr>interrogative := interrogative types + 1\<rparr>)
      else if endswith sentence ''!'' then count_types ss (types\<lparr>exclamatory := exclamatory types + 1\<rparr>)
      else count_types ss (types\<lparr>declarative := declarative types + 1\<rparr>))"

definition get_sentence_types :: "analyzer \<Rightarrow> sentence_types \<times> analyzer" where
  "get_sentence_types a = (case sentences a of (ss, a1) \<Rightarrow>
       (count_types ss \<lparr>declarative = 0, interrogative = 0, exclamatory = 0\<rparr>, a1))"

text \<open>
  The averages are Python floats, the quotient of two integers; the model keeps the
  exact quotient.
\<close>

definition average :: "nat list \<Rightarrow> rat" where
  "average ns = (if ns = [] then 0 else of_nat (sum_list ns) / of_nat (length ns))"

definition get_average_sentence_length :: "analyzer \<Rightarrow> rat \<times> analyzer" where
  "get_average_sentence_length a = (case sentences a of (ss, a1) \<Rightarrow>
       if ss = [] then (0, a1)
       else (case sentences a1 of (ss1, a2) \<Rightarrow>
             case sentences a2 of (ss2, a3) \<Rightarrow>
               (of_nat (sum_list (map length ss1)) / of_nat (length ss2), a3)))"

subsection \<open>Words\<close>

text \<open>
  \<open>get_all_words\<close> of the mixin, pattern \<open>\b[a-zA-Z\<dots>]+\b\<close>, the dots standing for the
  two Cyrillic ranges U+0430 to U+044F and U+0410 to U+042F.
\<close>

definition letters :: "citem list" where
  "letters = [CRange CHR ''a'' CHR ''z'', CRange CHR ''A'' CHR ''Z'',
              CRangeU 0x430 0x44F, CRangeU 0x410 0x42F]"

definition get_all_words :: "analyzer \<Rightarrow> string list" where
  "get_all_words a = findall (Seqs [WordB, Plus (Set letters), WordB]) (text_of a)"

definition count_words :: "analyzer \<Rightarrow> nat" where
  "count_words a = length (get_all_words a)"

definition get_average_word_length :: "analyzer \<Rightarrow> rat" where
  "get_average_word_length a = average (map length (get_all_words a))"

definition get_odd_length_words :: "analyzer \<Rightarrow> string list" where
  "get_odd_length_words a = filter (\<lambda>word. length word mod 2 \<noteq> 0) (get_all_words a)"

text \<open>\<open>min(xs, key=len)\<close> on a non-empty list: the first element of least length.\<close>

fun min_by_len :: "string \<Rightarrow> string list \<Rightarrow> string" where
  "min_by_len best [] = best"
| "min_by_len best (x # xs) = (if length x < length best then min_by_len x xs else min_by_len best xs)"

text \<open>\<open>get_shortest_i_word\<close>, pattern \<open>\b[iI]\w+\b\<close>.\<close>

definition i_word :: regex where
  "i_word = Seqs [WordB, Set [CChar CHR ''i'', CChar CHR ''I''], Plus (Set [CWord]), WordB]"

definition get_shortest_i_word :: "analyzer \<Rightarrow> string" where
  "get_shortest_i_word a = (case findall i_word (text_of a) of
       [] \<Rightarrow> []
     | w # ws \<Rightarrow> min_by_len w ws)"

text \<open>
  \<open>get_repeated_words\<close>, pattern \<open>\b(?!v_\b)[a-zA-Z\<dots>]+\b\<close> on the lower-cased text. A
  \<open>Counter\<close> keeps its keys in the order of their first occurrence.
\<close>

definition counter_keys :: "string list \<Rightarrow> string list" where
  "counter_keys ws = rev (remdups (rev ws))"

definition get_repeated_words :: "analyzer \<Rightarrow> string list" where
  "get_repeated_words a =
     (let ws = findall (Seqs [WordB, NotAhead (Seqs [Lit CHR ''v'', Lit CHR ''_'', WordB]),
                              Plus (Set letters), WordB]) (lower (text_of a))
      in filter (\<lambda>word. count_list ws word > 1) (counter_keys ws))"

subsection \<open>Smileys, e-mail addresses and variables\<close>

text \<open>\<open>count_smileys\<close>, pattern \<open>[;:]-*([\(\)\[\]])\1+\<close>.\<close>

definition brackets :: "citem list" where
  "brackets = [CChar CHR ''('', CChar CHR '')'', CChar CHR ''['', CChar CHR '']'']"

definition smiley :: regex where
  "smiley = Seqs [Set [CChar CHR '';'', CChar CHR '':''], Star (Lit CHR ''-''),
                  Group 1 (Set brackets), Plus (Backref 1)]"

definition count_smileys :: "analyzer \<Rightarrow> nat" where
  "count_smileys a = length (finditer smiley (text_of a))"

text \<open>
  \<open>get_emails_and_names\<close>, pattern
  \<open>(?:([^<>\n:]*?)\s*<)?([a-zA-Z0-9._%+-]+@[a-zA-Z0-9.-]+\.[a-zA-Z]{2,})>?\<close>; each match
  gives the pair \<open>(group(2), group(1).strip() if group(1) else '')\<close>.
\<close>

definition ascii_alnum :: "citem list" where
  "ascii_alnum = [CRange CHR ''a'' CHR ''z'', CRange CHR ''A'' CHR ''Z'', CRange CHR ''0'' CHR ''9'']"

definition ascii_letters :: "citem list" where
  "ascii_letters = [CRange CHR ''a'' CHR ''z'', CRange CHR ''A'' CHR ''Z'']"

definition address :: regex where
  "address = Seqs [
     Plus (Set (ascii_alnum @ [CChar CHR ''.'', CChar CHR ''_'', CChar CHR ''%'', CChar CHR ''+'', CChar CHR ''-''])),
     Lit CHR ''@'',
     Plus (Set (ascii_alnum @ [CChar CHR ''.'', CChar CHR ''-''])),
     Lit CHR ''.'',
     Set ascii_letters, Set ascii_letters, Star (Set ascii_letters)]"

definition named_address :: regex where
  "named_address = Seqs [
     Opt (Seqs [Group 1 (LazyStar (NSet [CChar CHR ''<'', CChar CHR ''>'', CChar CHR 0x0A, CChar CHR '':''])),
                Star (Set [CSpace]), Lit CHR ''<'']),
     Group 2 address,
     Opt (Lit CHR ''>'')]"

definition get_emails_and_names :: "analyzer \<Rightarrow> (string \<times> string) list" where
  "get_emails_and_names a =
     map (\<lambda>(m, g). (grp g 2, if grp g 1 \<noteq> [] then strip (grp g 1) else []))
         (finditer named_address (text_of a))"

text \<open>\<open>replace_math_vars\<close>, pattern \<open>\$v_\(([a-zA-Z0-9])\)\$\<close>, template \<open>v[\1]\<close>.\<close>

definition variable :: regex where
  "variable = Seqs [Lit CHR ''$'', Lit CHR ''v'', Lit CHR ''_'', Lit CHR ''('',
                    Group 1 (Set ascii_alnum), Lit CHR '')'', Lit CHR ''$'']"

definition replace_math_vars :: "analyzer \<Rightarrow> string" where
  "replace_math_vars a = re_sub variable (\<lambda>m g. ''v['' @ grp g 1 @ '']'') (text_of a)"

subsection \<open>The report\<close>

text \<open>The dictionary that \<open>analyze\<close> returns has eleven keys, here the fields in their order.\<close>

record report =
  sentence_count :: nat
  types_of_sentences :: sentence_types
  average_sentence_length :: rat
  average_word_length :: rat
  smiley_total :: nat
  emails_and_names :: "(string \<times> string) list"
  replaced_text :: string
  odd_length_words :: "string list"
  shortest_i_word :: string
  repeated_words :: "string list"
  word_count :: nat

definition analyze :: "analyzer \<Rightarrow> report \<times> analyzer" where
  "analyze a =
     (case sentences a of (ss, a1) \<Rightarrow>
      case get_sentence_types a1 of (types, a2) \<Rightarrow>
      case get_average_sentence_length a2 of (avg, a3) \<Rightarrow>
        (\<lparr>sentence_count = length ss,
          types_of_sentences = types,
          average_sentence_length = avg,
          average_word_length = get_average_word_length a3,
          smiley_total = count_smileys a3,
          emails_and_names = get_emails_and_names a3,
          replaced_text = replace_math_vars a3,
          odd_length_words = get_odd_length_words a3,
          shortest_i_word = get_shortest_i_word a3,
          repeated_words = get_repeated_words a3,
          word_count = count_words a3\<rparr>, a3))"

section \<open>The analyzers of \<open>Task2.py\<close>\<close>

text \<open>
  \<open>BasicTextAnalyzer\<close> and \<open>AdvancedTextAnalyzer\<close> keep the text and a dictionary of
  results; a key that has not been stored yet is \<open>None\<close>. An entry of \<open>emails\<close> is a
  dictionary with the keys \<open>username\<close> and \<open>domain\<close>.
\<close>

record email_entry =
  username :: string
  domain :: string

record results =
  total_sentences :: "nat option"
  declarative_sentences :: "nat option"
  interrogative_sentences :: "nat option"
  exclamatory_sentences :: "nat option"
  emails :: "email_entry list option"
  substituted_text :: "string option"
  odd_words :: "string list option"
  shortest_i :: "string option option"
  duplicate_words :: "string list option"
  smileys :: "string list option"
  smiley_count :: "nat option"

record text_analyzer =
  doc :: string
  res :: results

text \<open>\<open>_count_sentences\<close>: \<open>re.split(r'[.!?]+', self.text)\<close>, stripped, the empty ones dropped.\<close>

definition basic_sentences :: "string \<Rightarrow> string list" where
  "basic_sentences t =
     map strip (filter (\<lambda>s. strip s \<noteq> []) (re_split (Plus (Set terminators)) (\<lambda>m g. []) t))"

definition basic_count_sentences :: "text_analyzer \<Rightarrow> text_analyzer" where
  "basic_count_sentences a =
     a\<lparr>res := (res a)\<lparr>total_sentences := Some (length (basic_sentences (doc a)))\<rparr>\<rparr>"

text \<open>\<open>_classify_sentences\<close>, patterns \<open>[^!?]*\.\<close>, \<open>[^.]*\?\<close> and \<open>[^.]*!\<close>.\<close>

definition declarative_pattern :: regex where
  "declarative_pattern = Seq (Star (NSet [CChar CHR ''!'', CChar CHR ''?''])) (Lit CHR ''.'')"

definition interrogative_pattern :: regex where
  "interrogative_pattern = Seq (Star (NSet [CChar CHR ''.''])) (Lit CHR ''?'')"

definition exclamatory_pattern :: regex where
  "exclamatory_pattern = Seq (Star (NSet [CChar CHR ''.''])) (Lit CHR ''!'')"

definition basic_classify_sentences :: "text_analyzer \<Rightarrow> text_analyzer" where
  "basic_classify_sentences a =
     (let declarative = length (findall declarative_pattern (doc a));
          interrogative = length (findall interrogative_pattern (doc a));
          exclamatory = length (findall exclamatory_pattern (doc a))
      in a\<lparr>res := (res a)\<lparr>declarative_sentences := Some declarative,
                           interrogative_sentences := Some interrogative,
                           exclamatory_sentences := Some exclamatory\<rparr>\<rparr>)"




text \<open>\<open>_substitute_variables\<close>, the same pattern as above, with the function \<open>replacer\<close>.\<close>

definition replacer :: "string \<Rightarrow> (nat \<rightharpoonup> string) \<Rightarrow> string" where
  "replacer m g = ''v['' @ grp g 1 @ '']''"

definition adv_substitute_variables :: "text_analyzer \<Rightarrow> text_analyzer" where
  "adv_substitute_variables a =
     a\<lparr>res := (res a)\<lparr>substituted_text := Some (re_sub variable replacer (doc a))\<rparr>\<rparr>"

text \<open>
  \<open>_analyze_words\<close>, pattern \<open>\b\w+\b\<close> on the lower-cased text;
  \<open>min(i_words, key=len, default=None)\<close>.
\<close>

definition adv_analyze_words :: "text_analyzer \<Rightarrow> text_analyzer" where
  "adv_analyze_words a =
     (let ws = findall (Seqs [WordB, Plus (Set [CWord]), WordB]) (lower (doc a));
          odd = filter (\<lambda>word. length word mod 2 \<noteq> 0) ws;
          i_words = filter (\<lambda>word. take 1 word = ''i'') ws;
          shortest = (case i_words of [] \<Rightarrow> None | w # others \<Rightarrow> Some (min_by_len w others));
          duplicates = filter (\<lambda>word. count_list ws word > 1) (counter_keys ws)
      in a\<lparr>res := (res a)\<lparr>odd_words := Some odd, shortest_i := Some shortest,
                           duplicate_words := Some duplicates\<rparr>\<rparr>)"

text \<open>
  \<open>_count_smileys\<close>, pattern \<open>(?::|;)-*[\(\)\[\]]+\<close>; a candidate is kept when its
  brackets, what \<open>re.sub(r'^[:;]-*', '', smiley)\<close> leaves, are all the same character.
\<close>

definition smiley_candidate :: regex where
  "smiley_candidate = Seqs [Alt (Lit CHR '':'') (Lit CHR '';''), Star (Lit CHR ''-''), Plus (Set brackets)]"

definition smiley_head :: regex where
  "smiley_head = Seqs [Bol, Set [CChar CHR '':'', CChar CHR '';''], Star (Lit CHR ''-'')]"

definition valid_smiley :: "string \<Rightarrow> bool" where
  "valid_smiley s = (let bs = re_sub smiley_head (\<lambda>m g. []) s
                     in length (remdups bs) = 1 \<and> hd bs \<in> set ''()[]'')"

definition adv_count_smileys :: "text_analyzer \<Rightarrow> text_analyzer" where
  "adv_count_smileys a =
     (let valid_smileys = filter valid_smiley (findall smiley_candidate (doc a))
      in a\<lparr>res := (res a)\<lparr>smileys := Some valid_smileys,
                           smiley_count := Some (length valid_smileys)\<rparr>\<rparr>)"

section \<open>Reference notions of the specification\<close>

text \<open>An analyzer as the constructor leaves it, and one of \<open>Task2.py\<close> holding a text.\<close>

definition fresh :: "string \<Rightarrow> analyzer" where
  "fresh t = \<lparr>text_of = t, cached_sentences = None\<rparr>"

definition no_results :: results where
  "no_results = \<lparr>total_sentences = None, declarative_sentences = None,
     interrogative_sentences = None, exclamatory_sentences = None, emails = None,
     substituted_text = None, odd_words = None, shortest_i = None, duplicate_words = None,
     smileys = None, smiley_count = None\<rparr>"

definition with_text :: "string \<Rightarrow> text_analyzer" where
  "with_text t = \<lparr>doc = t, res = no_results\<rparr>"

text \<open>
  The cache of an analyzer is sound when it is empty or holds the sentences of the
  current text; the constructor and the setter leave it empty.
\<close>

definition cache_ok :: "analyzer \<Rightarrow> bool" where
  "cache_ok a = (case cached_sentences a of None \<Rightarrow> True
                 | Some ss \<Rightarrow> ss = split_into_sentences (text_of a))"

text \<open>
  The type of a sentence as the specification words it: by the last character, \<open>?\<close>
  first, then \<open>!\<close>, declarative otherwise.
\<close>

datatype kind = Declarative | Interrogative | Exclamatory

definition kind_of :: "string \<Rightarrow> kind" where
  "kind_of s = (if s \<noteq> [] \<and> last s = CHR ''?'' then Interrogative
                else if s \<noteq> [] \<and> last s = CHR ''!'' then Exclamatory
                else Declarative)"

text \<open>
  The segmentation as the specification words it: the text is cut at every maximal run
  of terminators, each span is trimmed, and the spans that are empty then are dropped.
  \<open>spans s cur\<close> cuts \<open>s\<close>, with \<open>cur\<close> the span read so far.
\<close>

definition is_terminator :: "char \<Rightarrow> bool" where
  "is_terminator c = (c = CHR ''.'' \<or> c = CHR ''!'' \<or> c = CHR ''?'')"

function spans :: "string \<Rightarrow> string \<Rightarrow> string list" where
  "spans [] cur = [cur]"
| "spans (c # cs) cur = (if is_terminator c then cur # spans (dropWhile is_terminator cs) []
                         else spans cs (cur @ [c]))"
  by pat_completeness auto
termination
  by (relation "measure (\<lambda>(s, cur). length s)") (auto simp: less_Suc_eq_le length_dropWhile_le)

definition reference_sentences :: "string \<Rightarrow> string list" where
  "reference_sentences t = filter (\<lambda>s. s \<noteq> []) (map strip (spans t []))"

text \<open>
  What \<open>_split_into_sentences\<close> does, in the same words: a sentence ends behind a
  maximal run of terminators that is followed by whitespace or by the end of the text,
  and the run stays with the sentence; the spans are trimmed, and those that are empty
  then are dropped. \<open>sentence_break s\<close> is such an end at the start of \<open>s\<close>, the run with
  the whitespace behind it, and the text that follows; \<open>cut s cur\<close> cuts \<open>s\<close>, with
  \<open>cur\<close> the span read so far.
\<close>

definition sentence_break :: "string \<Rightarrow> (string \<times> string) option" where
  "sentence_break s =
     (let run = takeWhile is_terminator s; after = dropWhile is_terminator s;
          ws = takeWhile is_space after
      in if run \<noteq> [] \<and> (after = [] \<or> ws \<noteq> []) then Some (run @ ws, dropWhile is_space after)
         else None)"

function cut :: "string \<Rightarrow> string \<Rightarrow> string list" where
  "cut [] cur = [cur]"
| "cut (c # cs) cur = (case sentence_break (c # cs) of
       Some (sep, s') \<Rightarrow> (cur @ sep) # cut s' []
     | None \<Rightarrow> cut cs (cur @ [c]))"
  by pat_completeness auto
termination
  by (relation "measure (\<lambda>(s, cur). length s)")
     (auto simp: sentence_break_def Let_def less_Suc_eq_le split: if_splits
           intro: le_trans [OF length_dropWhile_le length_dropWhile_le])

definition kept_sentences :: "string \<Rightarrow> string list" where
  "kept_sentences t = filter (\<lambda>s. s \<noteq> []) (map strip (cut t []))"

text \<open>
  The substitution as the specification words it: reading from the left, an occurrence
  of \<open>$v_(X)$\<close> with \<open>X\<close> one letter or digit is replaced by \<open>v[X]\<close>, and any other
  character is copied.
\<close>

definition letter_or_digit :: "char \<Rightarrow> bool" where
  "letter_or_digit x = ((code CHR ''a'' \<le> code x \<and> code x \<le> code CHR ''z'')
                        \<or> (code CHR ''A'' \<le> code x \<and> code x \<le> code CHR ''Z'')
                        \<or> (code CHR ''0'' \<le> code x \<and> code x \<le> code CHR ''9''))"

definition var_at :: "string \<Rightarrow> char option" where
  "var_at s = (if length s \<ge> 7 \<and> take 4 s = ''$v_('' \<and> letter_or_digit (s ! 4)
                  \<and> take 2 (drop 5 s) = '')$''
               then Some (s ! 4) else None)"

function substitute :: "string \<Rightarrow> string" where
  "substitute [] = []"
| "substitute (c # cs) = (case var_at (c # cs) of
       Some x \<Rightarrow> ''v['' @ [x] @ '']'' @ substitute (drop 6 cs)
     | None \<Rightarrow> c # substitute cs)"
  by pat_completeness auto
termination
  by (relation "measure length") (auto simp: less_Suc_eq_le)














text \<open>The second half of the pattern of a sentence end, \<open>(?:\s+|$)\<close>.\<close>

definition space_or_end :: regex where
  "space_or_end = Alt (Plus (Set [CSpace])) Eol"


section \<open>Properties\<close>

subsection \<open>Validation of the document\<close>

lemma init_cases:
  "init v = (case v of PyStr s \<Rightarrow> if s = [] then Inl ValueError else Inr (fresh s)
             | _ \<Rightarrow> Inl ValueError)"
  by (cases v) (simp_all add: init_def fresh_def)

lemma set_text_cases:
  "set_text a v = (case v of
       PyStr s \<Rightarrow> if s = [] then Inl ValueError
                  else Inr (a\<lparr>text_of := s, cached_sentences := None\<rparr>)
     | _ \<Rightarrow> Inl ValueError)"
  by (cases v) (simp_all add: set_text_def)

text \<open>
  C3, as stated, fails: a document of one blank is made of whitespace only, and both the
  constructor and the setter accept it.
\<close>

theorem blank_document_counterexample:
  "list_all is_space '' '' \<and> init (PyStr '' '') = Inr (fresh '' '')
   \<and> set_text (fresh ''x'') (PyStr '' '') = Inr (fresh '' '')"
  by (simp add: init_cases set_text_cases fresh_def is_space_def code_def)

text \<open>
  C3, amended: the constructor and the text setter fail with \<open>ValueError\<close> exactly when
  the value is not a string or is the empty string, and then no analyzer results; every
  non-empty string is accepted, a string of whitespace included, and the analyzer that
  results holds the string and an empty sentence cache (nothing has been extracted).
\<close>

theorem document_validation:
  "init v = (case v of PyStr s \<Rightarrow> if s = [] then Inl ValueError else Inr (fresh s)
             | _ \<Rightarrow> Inl ValueError)
   \<and> set_text a v = (case v of
         PyStr s \<Rightarrow> if s = [] then Inl ValueError
                    else Inr (a\<lparr>text_of := s, cached_sentences := None\<rparr>)
       | _ \<Rightarrow> Inl ValueError)"
  using init_cases set_text_cases by simp

theorem document_validation_witness:
  "init (PyStr ''Hi.'') = Inr (fresh ''Hi.'') \<and> init (PyStr []) = Inl ValueError
   \<and> init PyNone = Inl ValueError \<and> init (PyInt 5) = Inl ValueError
   \<and> set_text (fresh ''x'') (PyStr ''Hi.'') = Inr (fresh ''Hi.'')
   \<and> set_text (fresh ''x'') (PyStr []) = Inl ValueError"
  using document_validation [of "PyStr ''Hi.''" "fresh ''x''"]
    document_validation [of "PyStr []" "fresh ''x''"]
    document_validation [of PyNone "fresh ''x''"]
    document_validation [of "PyInt 5" "fresh ''x''"]
  by (simp add: fresh_def)

subsection \<open>Types of sentences\<close>

lemma endswith_char: "endswith s [c] = (s \<noteq> [] \<and> last s = c)"
proof (cases s rule: rev_cases)
  case Nil
  then show ?thesis by (simp add: endswith_def)
next
  case (snoc ys y)
  then show ?thesis by (simp add: endswith_def)
qed

lemma count_types_fields:
  "declarative (count_types ss ty)
     = declarative ty + length (filter (\<lambda>s. kind_of s = Declarative) ss)
   \<and> interrogative (count_types ss ty)
     = interrogative ty + length (filter (\<lambda>s. kind_of s = Interrogative) ss)
   \<and> exclamatory (count_types ss ty)
     = exclamatory ty + length (filter (\<lambda>s. kind_of s = Exclamatory) ss)"
  by (induction ss arbitrary: ty) (simp_all add: endswith_char kind_of_def)

lemma count_types_sum:
  "declarative (count_types ss ty) + interrogative (count_types ss ty)
     + exclamatory (count_types ss ty)
   = declarative ty + interrogative ty + exclamatory ty + length ss"
  by (induction ss arbitrary: ty) simp_all

lemma example_sentences:
  "split_into_sentences ''Hi! Are you ok? Yes.'' = [''Hi!'', ''Are you ok?'', ''Yes.'']"
  by code_simp

text \<open>
  C4: \<open>get_sentence_types\<close> counts every sentence of the segmentation in exactly one of
  the three types, the one its last character gives (\<open>?\<close> first, then \<open>!\<close>, declarative
  otherwise); so the three counts add up to the number of sentences. The document
  \<open>Hi! Are you ok? Yes.\<close> has three sentences: exclamatory, interrogative, declarative.
\<close>

theorem sentence_types_partition:
  "declarative (fst (get_sentence_types a))
     = length (filter (\<lambda>s. kind_of s = Declarative) (fst (sentences a)))
   \<and> interrogative (fst (get_sentence_types a))
     = length (filter (\<lambda>s. kind_of s = Interrogative) (fst (sentences a)))
   \<and> exclamatory (fst (get_sentence_types a))
     = length (filter (\<lambda>s. kind_of s = Exclamatory) (fst (sentences a)))
   \<and> declarative (fst (get_sentence_types a)) + interrogative (fst (get_sentence_types a))
       + exclamatory (fst (get_sentence_types a)) = length (fst (sentences a))
   \<and> fst (sentences (fresh ''Hi! Are you ok? Yes.'')) = [''Hi!'', ''Are you ok?'', ''Yes.'']
   \<and> map kind_of (fst (sentences (fresh ''Hi! Are you ok? Yes.'')))
       = [Exclamatory, Interrogative, Declarative]
   \<and> fst (get_sentence_types (fresh ''Hi! Are you ok? Yes.''))
       = \<lparr>declarative = 1, interrogative = 1, exclamatory = 1\<rparr>"
proof -
  have ex: "fst (sentences (fresh ''Hi! Are you ok? Yes.'')) = [''Hi!'', ''Are you ok?'', ''Yes.'']"
    by (simp add: sentences_def fresh_def example_sentences Let_def)
  have types: "fst (get_sentence_types b)
      = count_types (fst (sentences b)) \<lparr>declarative = 0, interrogative = 0, exclamatory = 0\<rparr>" for b
    by (simp add: get_sentence_types_def split: prod.splits)
  show ?thesis
    using count_types_fields [of "fst (sentences a)" "\<lparr>declarative = 0, interrogative = 0, exclamatory = 0\<rparr>"]
      count_types_sum [of "fst (sentences a)" "\<lparr>declarative = 0, interrogative = 0, exclamatory = 0\<rparr>"]
    by (simp add: types ex kind_of_def endswith_char)
qed

subsection \<open>The regular expressions that count a sentence twice\<close>

text \<open>
  C9: there is a document with a \<open>.\<close> and a \<open>!\<close>, \<open>Hi.!\<close>, whose one sentence
  \<open>_classify_sentences\<close> counts both as declarative and as exclamatory, so that the three
  counts of \<open>BasicTextAnalyzer\<close> add up to 2 while its \<open>total_sentences\<close> is 1.
\<close>

theorem classes_overlap:
  "\<exists>t d i e n. CHR ''.'' \<in> set t \<and> CHR ''!'' \<in> set t
     \<and> total_sentences (res (basic_count_sentences (with_text t))) = Some n
     \<and> declarative_sentences (res (basic_classify_sentences (with_text t))) = Some d
     \<and> interrogative_sentences (res (basic_classify_sentences (with_text t))) = Some i
     \<and> exclamatory_sentences (res (basic_classify_sentences (with_text t))) = Some e
     \<and> n = 1 \<and> d = 1 \<and> e = 1 \<and> d + i + e \<noteq> n"
proof -
  have "total_sentences (res (basic_count_sentences (with_text ''Hi.!''))) = Some 1"
    by code_simp
  moreover have "declarative_sentences (res (basic_classify_sentences (with_text ''Hi.!''))) = Some 1"
    by code_simp
  moreover have "interrogative_sentences (res (basic_classify_sentences (with_text ''Hi.!''))) = Some 0"
    by code_simp
  moreover have "exclamatory_sentences (res (basic_classify_sentences (with_text ''Hi.!''))) = Some 1"
    by code_simp
  ultimately show ?thesis
    by (intro exI [of _ "''Hi.!''"] exI [of _ "1::nat"] exI [of _ "0::nat"]) simp
qed

subsection \<open>Words that start with i, and smileys\<close>

text \<open>
  C8: on the document \<open>i\<close>, whose only word is the letter \<open>i\<close>, \<open>get_shortest_i_word\<close>
  returns the empty string, since its pattern asks for a second character; on
  \<open>I am in\<close> it returns \<open>in\<close> and not \<open>I\<close>. \<open>_analyze_words\<close> of \<open>Task2.py\<close> finds \<open>i\<close>.
\<close>

theorem shortest_i_word_single_letter:
  "get_shortest_i_word (fresh ''i'') = []
   \<and> get_shortest_i_word (fresh ''I am in'') = ''in''
   \<and> shortest_i (res (adv_analyze_words (with_text ''i''))) = Some (Some ''i'')"
  by code_simp

text \<open>
  C2: on the document \<open>:-)\<close>, a smiley with one bracket, \<open>count_smileys\<close> counts 0, since
  its pattern asks for the bracket twice, and on \<open>:-))]\<close>, whose run of brackets is mixed,
  it counts 1; \<open>_count_smileys\<close> of \<open>Task2.py\<close> counts 1 and 0 there. Both count 1 on
  \<open>:-)))\<close> and 0 on \<open>:-)]\<close>.
\<close>

theorem count_smileys_single_bracket:
  "count_smileys (fresh '':-)'') = 0
   \<and> smiley_count (res (adv_count_smileys (with_text '':-)''))) = Some 1
   \<and> count_smileys (fresh '':-))]'') = 1
   \<and> smiley_count (res (adv_count_smileys (with_text '':-))]''))) = Some 0
   \<and> count_smileys (fresh '':-)))'') = 1
   \<and> smiley_count (res (adv_count_smileys (with_text '':-)))''))) = Some 1
   \<and> count_smileys (fresh '':-)]'') = 0
   \<and> smiley_count (res (adv_count_smileys (with_text '':-)]''))) = Some 0"
  by code_simp

subsection \<open>No empty sentence\<close>

lemma strip_nonblank:
  assumes "strip x \<noteq> []"
  shows "\<exists>c\<in>set (strip x). \<not> is_space c"
proof -
  let ?y = "dropWhile is_space (rev (dropWhile is_space x))"
  from assms have ne: "?y \<noteq> []" by (simp add: strip_def)
  then have "\<not> is_space (hd ?y)" by (rule hd_dropWhile)
  moreover from ne have "hd ?y \<in> set ?y" by simp
  ultimately show ?thesis by (auto simp: strip_def)
qed

lemma collect_sentences:
  assumes "\<forall>s\<in>set acc. Q s" and "\<And>x. strip x \<noteq> [] \<Longrightarrow> Q (strip x)"
  shows "\<forall>s\<in>set (snd (collect parts cur acc)). Q s"
  using assms(1)
proof (induction parts arbitrary: cur acc)
  case Nil
  then show ?case by simp
next
  case (Cons part parts)
  show ?case
  proof (cases "search sentence_end part \<and> strip (cur @ part) \<noteq> []")
    case True
    have "\<forall>s\<in>set (acc @ [strip (cur @ part)]). Q s"
      using Cons.prems True assms(2) by auto
    then have "\<forall>s\<in>set (snd (collect parts [] (acc @ [strip (cur @ part)]))). Q s"
      by (rule Cons.IH)
    with True show ?thesis by (simp add: Let_def)
  next
    case False
    then show ?thesis using Cons.IH [OF Cons.prems] by (auto simp: Let_def)
  qed
qed

lemma split_into_sentences_all:
  assumes "\<And>x. strip x \<noteq> [] \<Longrightarrow> Q (strip x)"
  shows "\<forall>s\<in>set (split_into_sentences t). Q s"
proof -
  have "\<forall>s\<in>set (snd (collect (sentence_parts t) [] [])). Q s"
    by (rule collect_sentences) (simp_all add: assms)
  then show ?thesis
    using assms by (cases "collect (sentence_parts t) [] []") (auto simp: split_into_sentences_def)
qed

text \<open>
  C6: for every document, no sentence that \<open>_split_into_sentences\<close> returns is empty or
  made of whitespace only.
\<close>

theorem no_blank_sentence:
  "\<forall>s\<in>set (split_into_sentences t). s \<noteq> [] \<and> \<not> list_all is_space s"
proof (rule split_into_sentences_all)
  fix x assume "strip x \<noteq> []"
  then show "strip x \<noteq> [] \<and> \<not> list_all is_space (strip x)"
    using strip_nonblank [of x] by (auto simp: list_all_iff)
qed

lemma example_runs: "split_into_sentences ''Hi!! ?  ... Bye'' = [''Hi!!'', ''?'', ''...'', ''Bye'']"
  by code_simp

theorem no_blank_sentence_witness:
  "split_into_sentences ''Hi!! ?  ... Bye'' = [''Hi!!'', ''?'', ''...'', ''Bye'']
   \<and> list_all (\<lambda>s. s \<noteq> [] \<and> \<not> list_all is_space s) (split_into_sentences ''Hi!! ?  ... Bye'')"
  using no_blank_sentence [of "''Hi!! ?  ... Bye''"]
  by (simp only: example_runs list_all_iff)

subsection \<open>Repeated analysis\<close>

lemma sentences_ok:
  "cache_ok a \<Longrightarrow> sentences a = (split_into_sentences (text_of a),
      a\<lparr>cached_sentences := Some (split_into_sentences (text_of a))\<rparr>)"
  by (cases "cached_sentences a") (simp_all add: cache_ok_def sentences_def Let_def)

lemma cache_ok_filled:
  "cache_ok (a\<lparr>cached_sentences := Some (split_into_sentences (text_of a))\<rparr>)"
  by (simp add: cache_ok_def)

lemma sentences_filled:
  "sentences (a\<lparr>cached_sentences := Some ss\<rparr>) = (ss, a\<lparr>cached_sentences := Some ss\<rparr>)"
  by (simp add: sentences_def)

lemma get_sentence_types_filled:
  "get_sentence_types (a\<lparr>cached_sentences := Some ss\<rparr>)
   = (count_types ss \<lparr>declarative = 0, interrogative = 0, exclamatory = 0\<rparr>,
      a\<lparr>cached_sentences := Some ss\<rparr>)"
  by (simp add: get_sentence_types_def sentences_filled)

lemma get_average_sentence_length_filled:
  "get_average_sentence_length (a\<lparr>cached_sentences := Some ss\<rparr>)
   = (average (map length ss), a\<lparr>cached_sentences := Some ss\<rparr>)"
  by (simp add: get_average_sentence_length_def sentences_filled average_def)

text \<open>The report is a function of the text alone, and \<open>analyze\<close> only fills the cache.\<close>

lemma analyze_ok:
  assumes "cache_ok a"
  shows "analyze a =
    (\<lparr>sentence_count = length (split_into_sentences (text_of a)),
      types_of_sentences = count_types (split_into_sentences (text_of a))
         \<lparr>declarative = 0, interrogative = 0, exclamatory = 0\<rparr>,
      average_sentence_length = average (map length (split_into_sentences (text_of a))),
      average_word_length = get_average_word_length (fresh (text_of a)),
      smiley_total = count_smileys (fresh (text_of a)),
      emails_and_names = get_emails_and_names (fresh (text_of a)),
      replaced_text = replace_math_vars (fresh (text_of a)),
      odd_length_words = get_odd_length_words (fresh (text_of a)),
      shortest_i_word = get_shortest_i_word (fresh (text_of a)),
      repeated_words = get_repeated_words (fresh (text_of a)),
      word_count = count_words (fresh (text_of a))\<rparr>,
     a\<lparr>cached_sentences := Some (split_into_sentences (text_of a))\<rparr>)"
  by (simp add: analyze_def sentences_ok [OF assms] get_sentence_types_filled
      get_average_sentence_length_filled get_average_word_length_def count_smileys_def
      get_emails_and_names_def replace_math_vars_def get_odd_length_words_def
      get_shortest_i_word_def get_repeated_words_def count_words_def get_all_words_def fresh_def)

lemma valid_cache_ok:
  assumes "init v = Inr a \<or> set_text a0 v = Inr a \<or> cache_ok a"
  shows "cache_ok a"
  using assms
  by (cases v) (auto simp: init_cases set_text_cases cache_ok_def fresh_def split: if_splits)

text \<open>
  C10: on an analyzer that holds a valid document (as the constructor or the setter
  leaves it, or at any later moment, its cache being empty or that of its text), a second
  call of \<open>analyze\<close>, after the first has filled the cache, returns the same report as the
  first, which is also the report of a new analyzer on the same document; neither call
  changes the document.
\<close>

theorem analyze_deterministic:
  assumes "init v = Inr a \<or> set_text a0 v = Inr a \<or> cache_ok a"
  shows "fst (analyze (snd (analyze a))) = fst (analyze a)
     \<and> fst (analyze a) = fst (analyze (fresh (text_of a)))
     \<and> text_of (snd (analyze a)) = text_of a
     \<and> text_of (snd (analyze (snd (analyze a)))) = text_of a
     \<and> cached_sentences (snd (analyze a)) = Some (split_into_sentences (text_of a))"
proof -
  have ok: "cache_ok a" by (rule valid_cache_ok [OF assms])
  let ?b = "snd (analyze a)"
  have b: "?b = a\<lparr>cached_sentences := Some (split_into_sentences (text_of a))\<rparr>"
    by (simp add: analyze_ok [OF ok])
  have okb: "cache_ok ?b" unfolding b by (rule cache_ok_filled)
  have tb: "text_of ?b = text_of a" by (simp add: b)
  have okf: "cache_ok (fresh (text_of a))" by (simp add: cache_ok_def fresh_def)
  have tf: "text_of (fresh (text_of a)) = text_of a" by (simp add: fresh_def)
  have 1: "fst (analyze ?b) = fst (analyze a)"
    by (simp add: analyze_ok [OF okb] tb) (simp add: analyze_ok [OF ok])
  have 2: "fst (analyze a) = fst (analyze (fresh (text_of a)))"
    by (simp add: analyze_ok [OF okf] tf) (simp add: analyze_ok [OF ok])
  have 3: "text_of (snd (analyze ?b)) = text_of a"
    by (simp add: analyze_ok [OF okb] tb)
  have 4: "cached_sentences ?b = Some (split_into_sentences (text_of a))"
    by (simp add: b)
  from 1 2 3 4 tb show ?thesis by simp
qed

lemma example_report:
  "fst (analyze (fresh ''Hi! Are you ok? Yes.'')) =
    \<lparr>sentence_count = 3,
     types_of_sentences = \<lparr>declarative = 1, interrogative = 1, exclamatory = 1\<rparr>,
     average_sentence_length = 6, average_word_length = 13 / 5, smiley_total = 0,
     emails_and_names = [], replaced_text = ''Hi! Are you ok? Yes.'',
     odd_length_words = [''Are'', ''you'', ''Yes''], shortest_i_word = [],
     repeated_words = [], word_count = 5\<rparr>"
  by code_simp

theorem analyze_deterministic_witness:
  "init (PyStr ''Hi! Are you ok? Yes.'') = Inr (fresh ''Hi! Are you ok? Yes.'')
   \<and> fst (analyze (snd (analyze (fresh ''Hi! Are you ok? Yes.'')))) =
      \<lparr>sentence_count = 3,
       types_of_sentences = \<lparr>declarative = 1, interrogative = 1, exclamatory = 1\<rparr>,
       average_sentence_length = 6, average_word_length = 13 / 5, smiley_total = 0,
       emails_and_names = [], replaced_text = ''Hi! Are you ok? Yes.'',
       odd_length_words = [''Are'', ''you'', ''Yes''], shortest_i_word = [],
       repeated_words = [], word_count = 5\<rparr>
   \<and> text_of (snd (analyze (snd (analyze (fresh ''Hi! Are you ok? Yes.''))))) = ''Hi! Are you ok? Yes.''"
proof -
  have i: "init (PyStr ''Hi! Are you ok? Yes.'') = Inr (fresh ''Hi! Are you ok? Yes.'')"
    by (simp add: init_cases)
  have t: "text_of (fresh ''Hi! Are you ok? Yes.'') = ''Hi! Are you ok? Yes.''"
    by (simp add: fresh_def)
  from i have "init (PyStr ''Hi! Are you ok? Yes.'') = Inr (fresh ''Hi! Are you ok? Yes.'')
      \<or> set_text (fresh ''x'') (PyStr ''Hi! Are you ok? Yes.'') = Inr (fresh ''Hi! Are you ok? Yes.'')
      \<or> cache_ok (fresh ''Hi! Are you ok? Yes.'')" by simp
  from analyze_deterministic [OF this] i show ?thesis
    by (simp only: example_report t)
qed

subsection \<open>Substitution of variables\<close>

lemma ms_Seq_Lit:
  "ms (Seq (Lit d) r) st = (case rest st of [] \<Rightarrow> []
     | c # s \<Rightarrow> if c = d then ms r (st\<lparr>prev := Some c, rest := s\<rparr>) else [])"
  by (simp add: Lit_def split: list.splits)

lemma ms_Lit:
  "ms (Lit d) st = (case rest st of [] \<Rightarrow> []
     | c # s \<Rightarrow> if c = d then [st\<lparr>prev := Some c, rest := s\<rparr>] else [])"
  by (simp add: Lit_def split: list.splits)

lemma ms_Seq_Group_Set:
  "ms (Seq (Group k (Set cs)) r) st = (case rest st of [] \<Rightarrow> []
     | c # s \<Rightarrow> if list_ex (in_item c) cs
                then ms r (st\<lparr>prev := Some c, rest := s, caps := (caps st)(k \<mapsto> [c])\<rparr>) else [])"
  by (simp add: consumed_def split: list.splits)

lemma in_ascii_alnum: "list_ex (in_item x) ascii_alnum = letter_or_digit x"
  by (auto simp: ascii_alnum_def letter_or_digit_def)

text \<open>The pattern matches exactly at an occurrence, and takes its seven characters.\<close>

lemma match_at_variable:
  "match_at variable p s = (case var_at s of None \<Rightarrow> None | Some x \<Rightarrow> Some (7, [1 \<mapsto> [x]]))"
proof (cases "\<exists>a b c d x e f s'. s = a # b # c # d # x # e # f # s'")
  case True
  then obtain a b c d x e f s' where s: "s = a # b # c # d # x # e # f # s'" by blast
  show ?thesis
    by (simp add: s match_at_def variable_def ms_Seq_Lit ms_Lit ms_Seq_Group_Set in_ascii_alnum
        consumed_def var_at_def)
next
  case False
  have "7 \<le> length s \<Longrightarrow> \<exists>a b c d x e f s'. s = a # b # c # d # x # e # f # s'"
    by (auto simp: eval_nat_numeral Suc_le_length_iff)
  with False have "length s < 7" by (meson not_le)
  then have v: "var_at s = None" by (simp add: var_at_def)
  have "ms variable \<lparr>prev = p, rest = s, caps = Map.empty\<rparr> = []"
    using False
    by (simp add: variable_def ms_Seq_Lit ms_Lit ms_Seq_Group_Set del: ms.simps split: list.splits)
  then show ?thesis by (simp add: match_at_def v)
qed

lemma sub_variable:
  "sub_pieces (\<lambda>m g. ''v['' @ grp g 1 @ '']'') (scan variable p s) = substitute s"
proof (induction s arbitrary: p rule: substitute.induct)
  case 1
  show ?case by (simp add: match_at_variable var_at_def)
next
  case (2 c cs)
  show ?case
  proof (cases "var_at (c # cs)")
    case None
    then show ?thesis using 2 by (simp add: match_at_variable)
  next
    case (Some x)
    then show ?thesis using 2 by (simp add: match_at_variable grp_def)
  qed
qed

lemma replacer_eq: "replacer = (\<lambda>m g. ''v['' @ grp g 1 @ '']'')"
  by (simp add: fun_eq_iff replacer_def)

lemma substitute_examples:
  "replace_math_vars (fresh ''a $v_(3)$ b'') = ''a v[3] b''
   \<and> replace_math_vars (fresh ''$v_(xy)$'') = ''$v_(xy)$''
   \<and> substituted_text (res (adv_substitute_variables (with_text ''a $v_(3)$ b''))) = Some ''a v[3] b''
   \<and> substituted_text (res (adv_substitute_variables (with_text ''$v_(xy)$''))) = Some ''$v_(xy)$''"
  by code_simp

text \<open>
  C7: for every document, \<open>replace_math_vars\<close> and \<open>_substitute_variables\<close> return the
  text in which, reading from the left, every occurrence of \<open>$v_(X)$\<close> with \<open>X\<close> one
  letter or digit is replaced by \<open>v[X]\<close> and every other character is copied; the
  first is a function of the analyzer and cannot change it, the second stores its result
  and leaves the document as it is. \<open>a $v_(3)$ b\<close> becomes \<open>a v[3] b\<close>, and \<open>$v_(xy)$\<close>
  comes back unchanged.
\<close>

theorem variables_substituted:
  "replace_math_vars a = substitute (text_of a)
   \<and> substituted_text (res (adv_substitute_variables b)) = Some (substitute (doc b))
   \<and> doc (adv_substitute_variables b) = doc b
   \<and> replace_math_vars (fresh ''a $v_(3)$ b'') = ''a v[3] b''
   \<and> replace_math_vars (fresh ''$v_(xy)$'') = ''$v_(xy)$''
   \<and> substituted_text (res (adv_substitute_variables (with_text ''a $v_(3)$ b''))) = Some ''a v[3] b''
   \<and> substituted_text (res (adv_substitute_variables (with_text ''$v_(xy)$''))) = Some ''$v_(xy)$''"
proof -
  have "replace_math_vars a = substitute (text_of a)"
    unfolding replace_math_vars_def re_sub_def by (rule sub_variable)
  moreover have "substituted_text (res (adv_substitute_variables b)) = Some (substitute (doc b))"
    using sub_variable [of None "doc b"]
    by (simp add: adv_substitute_variables_def re_sub_def replacer_eq)
  moreover have "doc (adv_substitute_variables b) = doc b"
    by (simp add: adv_substitute_variables_def)
  ultimately show ?thesis using substitute_examples by blast
qed

subsection \<open>Segmentation against its reference\<close>

declare ms.simps(6,7) [simp del]

lemma ms_Star_Set:
  "ms (Star (Set cs)) st = (case rest st of [] \<Rightarrow> [st]
     | c # r \<Rightarrow> if list_ex (in_item c) cs
                then ms (Star (Set cs)) (st\<lparr>prev := Some c, rest := r\<rparr>) @ [st] else [st])"
  by (subst ms.simps) (simp split: list.splits)

lemma ms_Plus_Set:
  "ms (Plus (Set cs)) st = (case rest st of [] \<Rightarrow> []
     | c # r \<Rightarrow> if list_ex (in_item c) cs
                then ms (Star (Set cs)) (st\<lparr>prev := Some c, rest := r\<rparr>) else [])"
  by (simp add: Plus_def split: list.splits)

lemma ms_Star_Set_hd:
  "rest st = s \<Longrightarrow> \<exists>st' more. ms (Star (Set cs)) st = st' # more
     \<and> rest st' = dropWhile (\<lambda>c. list_ex (in_item c) cs) s \<and> caps st' = caps st"
proof (induction s arbitrary: st)
  case Nil
  then show ?case by (subst ms_Star_Set) simp
next
  case (Cons c r)
  show ?case
  proof (cases "list_ex (in_item c) cs")
    case True
    from Cons.IH [of "st\<lparr>prev := Some c, rest := r\<rparr>"]
    obtain st' more where "ms (Star (Set cs)) (st\<lparr>prev := Some c, rest := r\<rparr>) = st' # more"
      and "rest st' = dropWhile (\<lambda>c. list_ex (in_item c) cs) r" and "caps st' = caps st"
      by auto
    with True Cons.prems show ?thesis by (subst ms_Star_Set) simp
  next
    case False
    with Cons.prems show ?thesis by (subst ms_Star_Set) simp
  qed
qed

lemma in_terminators: "list_ex (in_item c) terminators = is_terminator c"
  by (auto simp: terminators_def is_terminator_def)

lemma match_at_run:
  "match_at (Plus (Set terminators)) p s = (case s of [] \<Rightarrow> None
     | c # cs \<Rightarrow> if is_terminator c
                 then Some (Suc (length (takeWhile is_terminator cs)), Map.empty) else None)"
proof (cases s)
  case Nil
  then show ?thesis by (simp add: match_at_def ms_Plus_Set)
next
  case (Cons c cs)
  show ?thesis
  proof (cases "is_terminator c")
    case False
    with Cons show ?thesis by (simp add: match_at_def ms_Plus_Set in_terminators)
  next
    case True
    let ?st = "\<lparr>prev = Some c, rest = cs, caps = Map.empty\<rparr>"
    from ms_Star_Set_hd [of ?st cs terminators]
    obtain st' more where m: "ms (Star (Set terminators)) ?st = st' # more"
      and r: "rest st' = dropWhile is_terminator cs" and c: "caps st' = Map.empty"
      by (auto simp: in_terminators)
    have "length cs - length (dropWhile is_terminator cs) = length (takeWhile is_terminator cs)"
      by (metis add_diff_cancel_right' length_append takeWhile_dropWhile_id)
    moreover have "length (dropWhile is_terminator cs) \<le> length cs"
      by (rule length_dropWhile_le)
    ultimately show ?thesis
      using True Cons m r c by (simp add: match_at_def ms_Plus_Set in_terminators Suc_diff_le)
  qed
qed

lemma split_run:
  "split_pieces (\<lambda>m g. []) (scan (Plus (Set terminators)) p s) cur = spans s cur"
proof (induction s cur arbitrary: p rule: spans.induct)
  case (1 cur)
  show ?case by (simp add: match_at_run)
next
  case (2 c cs cur)
  show ?case
  proof (cases "is_terminator c")
    case True
    have "drop (length (takeWhile is_terminator cs)) cs = dropWhile is_terminator cs"
      by (simp add: dropWhile_eq_drop)
    with True 2(1) show ?thesis by (simp add: match_at_run)
  next
    case False
    with 2(2) show ?thesis by (simp add: match_at_run)
  qed
qed

lemma filter_strip:
  "filter (\<lambda>s. s \<noteq> []) (map strip xs) = map strip (filter (\<lambda>s. strip s \<noteq> []) xs)"
  by (induction xs) simp_all

lemma basic_sentences_reference: "basic_sentences t = reference_sentences t"
  by (simp only: basic_sentences_def reference_sentences_def re_split_def split_run filter_strip)

lemma spans_plain: "\<forall>c\<in>set s. \<not> is_terminator c \<Longrightarrow> spans s cur = [cur @ s]"
  by (induction s arbitrary: cur) simp_all

lemma dropWhile_all: "(\<forall>c\<in>set (dropWhile P xs). P c) = (dropWhile P xs = [])"
proof
  assume a: "\<forall>c\<in>set (dropWhile P xs). P c"
  show "dropWhile P xs = []"
  proof (rule ccontr)
    assume ne: "dropWhile P xs \<noteq> []"
    then have "\<not> P (hd (dropWhile P xs))" by (rule hd_dropWhile)
    moreover from ne have "hd (dropWhile P xs) \<in> set (dropWhile P xs)" by simp
    ultimately show False using a by blast
  qed
next
  assume d: "dropWhile P xs = []"
  show "\<forall>c\<in>set (dropWhile P xs). P c" unfolding d by simp
qed

lemma strip_empty: "(strip t = []) = (\<forall>c\<in>set t. is_space c)"
proof -
  have "(strip t = []) = (\<forall>c\<in>set (dropWhile is_space t). is_space c)"
    by (simp add: strip_def dropWhile_eq_Nil_conv)
  also have "\<dots> = (dropWhile is_space t = [])" by (rule dropWhile_all)
  also have "\<dots> = (\<forall>c\<in>set t. is_space c)" by simp
  finally show ?thesis .
qed

lemma ms_sentence_end_none:
  "(case rest st of [] \<Rightarrow> True | c # _ \<Rightarrow> \<not> is_terminator c) \<Longrightarrow> ms sentence_end st = []"
  by (simp add: sentence_end_def ms_Plus_Set in_terminators split: list.splits)

lemma scan_plain:
  assumes "\<And>p s. s = [] \<or> \<not> is_terminator (hd s) \<Longrightarrow> match_at r p s = None"
  shows "\<forall>c\<in>set s. \<not> is_terminator c \<Longrightarrow> scan r p s = map Skip s"
  by (induction s arbitrary: p) (simp_all add: assms)

lemma match_at_sentence_end_none:
  "s = [] \<or> \<not> is_terminator (hd s) \<Longrightarrow> match_at sentence_end p s = None"
  by (cases s) (simp_all add: match_at_def ms_sentence_end_none)

lemma match_at_group_sentence_end_none:
  "s = [] \<or> \<not> is_terminator (hd s) \<Longrightarrow> match_at (Group 1 sentence_end) p s = None"
  by (cases s) (simp_all add: match_at_def ms_sentence_end_none)

lemma split_pieces_skips: "split_pieces sep (map Skip s) cur = [cur @ s]"
  by (induction s arbitrary: cur) simp_all

lemma hits_skips: "hits (map Skip s) = []"
  by (induction s) simp_all

lemma split_into_sentences_plain:
  assumes "\<forall>c\<in>set t. \<not> is_terminator c"
  shows "split_into_sentences t = (if strip t = [] then [] else [strip t])"
proof -
  have parts: "sentence_parts t = [t]"
    using scan_plain [of "Group 1 sentence_end" t None, OF match_at_group_sentence_end_none assms]
    by (simp add: sentence_parts_def re_split_def split_pieces_skips)
  have "\<not> search sentence_end t"
    using scan_plain [of sentence_end t None, OF match_at_sentence_end_none assms]
    by (simp add: search_def finditer_def hits_skips)
  with parts show ?thesis by (simp add: split_into_sentences_def)
qed

text \<open>The loop of \<open>_split_into_sentences\<close> against \<open>cut\<close>.\<close>

lemma sentence_break_parts: "sentence_break s = Some (sep, s') \<Longrightarrow> s = sep @ s' \<and> sep \<noteq> []"
  by (auto simp: sentence_break_def Let_def split: if_splits)

lemma concat_map_concat: "concat (map f (concat xss)) = concat (map (\<lambda>xs. concat (map f xs)) xss)"
  by (induction xss) simp_all

lemma ms_Seq_assoc: "ms (Seq (Seq a b) c) st = ms (Seq a (Seq b c)) st"
proof -
  have "ms (Seq b c) = (\<lambda>x. concat (map (ms c) (ms b x)))" by (rule ext) simp
  then show ?thesis by (simp add: concat_map_concat comp_def)
qed

lemma ms_Seq_Set:
  "ms (Seq (Set cs) r) st = (case rest st of [] \<Rightarrow> []
     | c # s \<Rightarrow> if list_ex (in_item c) cs then ms r (st\<lparr>prev := Some c, rest := s\<rparr>) else [])"
  by (simp split: list.splits)

lemma advance_step:
  "rest st = c # r \<Longrightarrow> n \<le> length r \<Longrightarrow> advance n (st\<lparr>prev := Some c, rest := r\<rparr>) = advance (Suc n) st"
  by (cases n) (auto simp: advance_def)

lemma ms_Seq_Star_Set:
  assumes fail: "\<And>st c r. rest st = c # r \<Longrightarrow> list_ex (in_item c) cs \<Longrightarrow> ms X st = []"
  shows "rest st = s \<Longrightarrow>
     ms (Seq (Star (Set cs)) X) st = ms X (advance (length (takeWhile (\<lambda>c. list_ex (in_item c) cs) s)) st)"
proof (induction s arbitrary: st)
  case Nil
  then show ?case by (simp add: ms_Star_Set advance_def)
next
  case (Cons c r)
  show ?case
  proof (cases "list_ex (in_item c) cs")
    case False
    with Cons.prems show ?thesis by (simp add: ms_Star_Set advance_def)
  next
    case True
    let ?st1 = "st\<lparr>prev := Some c, rest := r\<rparr>"
    let ?n = "length (takeWhile (\<lambda>c. list_ex (in_item c) cs) r)"
    have "ms (Seq (Star (Set cs)) X) st = ms (Seq (Star (Set cs)) X) ?st1 @ ms X st"
      using True Cons.prems by (simp add: ms_Star_Set)
    also have "ms X st = []" using fail [OF Cons.prems True] .
    also have "ms (Seq (Star (Set cs)) X) ?st1 = ms X (advance ?n ?st1)"
      by (rule Cons.IH) simp
    also have "advance ?n ?st1 = advance (Suc ?n) st"
      by (rule advance_step [OF Cons.prems]) (rule length_takeWhile_le)
    finally show ?thesis using True by simp
  qed
qed


lemma terminator_not_space: "is_terminator c \<Longrightarrow> \<not> is_space c"
  by (auto simp: is_terminator_def is_space_def code_def)

lemma newline_space: "is_space (CHR 0x0A)"
  by (simp add: is_space_def code_def)

lemma space_or_end_fails:
  "rest st = c # r \<Longrightarrow> \<not> is_space c \<Longrightarrow> ms space_or_end st = []"
  using newline_space by (auto simp: space_or_end_def ms_Plus_Set)

lemma space_or_end_at_end: "rest st = [] \<Longrightarrow> ms space_or_end st = [st]"
  by (simp add: space_or_end_def ms_Plus_Set)

lemma space_or_end_space:
  assumes "rest st = c # r" and "is_space c"
  shows "\<exists>st' more. ms space_or_end st = st' # more
     \<and> rest st' = dropWhile is_space r \<and> caps st' = caps st"
proof -
  from ms_Star_Set_hd [of "st\<lparr>prev := Some c, rest := r\<rparr>" r "[CSpace]"]
  obtain st' more where "ms (Star (Set [CSpace])) (st\<lparr>prev := Some c, rest := r\<rparr>) = st' # more"
    and "rest st' = dropWhile is_space r" and "caps st' = caps st"
    by auto
  with assms show ?thesis by (simp add: space_or_end_def ms_Plus_Set)
qed

lemma sentence_end_eq: "sentence_end = Seq (Plus (Set terminators)) space_or_end"
  by (simp add: sentence_end_def space_or_end_def)

text \<open>The matcher on the pattern of a sentence end.\<close>

lemma ms_sentence_end:
  "ms sentence_end st = (case rest st of [] \<Rightarrow> []
     | c # r \<Rightarrow> if is_terminator c
        then ms space_or_end (advance (Suc (length (takeWhile is_terminator r))) st) else [])"
proof (cases "rest st")
  case Nil
  then show ?thesis by (simp add: sentence_end_eq Plus_def ms_Seq_assoc ms_Seq_Set del: ms.simps(4))
next
  case (Cons c r)
  show ?thesis
  proof (cases "is_terminator c")
    case False
    with Cons show ?thesis
      by (simp add: sentence_end_eq Plus_def ms_Seq_assoc ms_Seq_Set in_terminators del: ms.simps(4))
  next
    case True
    let ?st1 = "st\<lparr>prev := Some c, rest := r\<rparr>"
    have fail: "\<And>st c r. rest st = c # r \<Longrightarrow> list_ex (in_item c) terminators \<Longrightarrow> ms space_or_end st = []"
      using space_or_end_fails terminator_not_space by (simp add: in_terminators)
    have "ms sentence_end st = ms (Seq (Star (Set terminators)) space_or_end) ?st1"
      using Cons True
      by (simp add: sentence_end_eq Plus_def ms_Seq_assoc ms_Seq_Set in_terminators del: ms.simps(4))
    also have "\<dots> = ms space_or_end (advance (length (takeWhile is_terminator r)) ?st1)"
      using ms_Seq_Star_Set [of terminators space_or_end ?st1 r, OF fail]
      by (simp add: in_terminators)
    also have "advance (length (takeWhile is_terminator r)) ?st1
        = advance (Suc (length (takeWhile is_terminator r))) st"
      by (rule advance_step [OF Cons]) (rule length_takeWhile_le)
    finally show ?thesis using Cons True by simp
  qed
qed


lemma advance_rest_caps: "rest (advance n st) = drop n (rest st) \<and> caps (advance n st) = caps st"
  by (simp add: advance_def)

lemma sentence_end_head:
  assumes "rest st = s"
  shows "case sentence_break s of
           None \<Rightarrow> ms sentence_end st = []
         | Some (sep, s') \<Rightarrow> \<exists>st' more. ms sentence_end st = st' # more
                               \<and> rest st' = s' \<and> caps st' = caps st"
proof (cases s)
  case Nil
  with assms show ?thesis by (simp add: sentence_break_def ms_sentence_end)
next
  case (Cons c r)
  show ?thesis
  proof (cases "is_terminator c")
    case False
    with Cons assms show ?thesis by (simp add: sentence_break_def ms_sentence_end)
  next
    case True
    define after where "after = dropWhile is_terminator r"
    define st2 where "st2 = advance (Suc (length (takeWhile is_terminator r))) st"
    have m: "ms sentence_end st = ms space_or_end st2"
      using Cons assms True by (simp add: ms_sentence_end st2_def)
    have r2: "rest st2 = after"
      using Cons assms by (simp add: advance_rest_caps dropWhile_eq_drop st2_def after_def)
    have c2: "caps st2 = caps st" by (simp add: advance_rest_caps st2_def)
    have br: "sentence_break s =
        (if after = [] \<or> takeWhile is_space after \<noteq> []
         then Some (c # takeWhile is_terminator r @ takeWhile is_space after, dropWhile is_space after)
         else None)"
      using Cons True by (simp add: sentence_break_def Let_def after_def)
    show ?thesis
    proof (cases after)
      case Nil
      with r2 have "ms space_or_end st2 = [st2]" by (simp add: space_or_end_at_end)
      with Nil m r2 c2 show ?thesis by (simp add: br)
    next
      case after: (Cons w r')
      show ?thesis
      proof (cases "is_space w")
        case False
        with after r2 have "ms space_or_end st2 = []" by (simp add: space_or_end_fails)
        with after False m show ?thesis by (simp add: br)
      next
        case space: True
        from space_or_end_space [of st2 w r'] after r2 space
        obtain st' more where "ms space_or_end st2 = st' # more"
          and "rest st' = dropWhile is_space r'" and "caps st' = caps st2"
          by auto
        with after space m c2 show ?thesis by (simp add: br)
      qed
    qed
  qed
qed

lemma match_at_sentence_end:
  "match_at sentence_end p s = (case sentence_break s of None \<Rightarrow> None
     | Some (sep, s') \<Rightarrow> Some (length sep, Map.empty))"
proof (cases "sentence_break s")
  case None
  with sentence_end_head [of "\<lparr>prev = p, rest = s, caps = Map.empty\<rparr>" s]
  show ?thesis by (simp add: match_at_def)
next
  case (Some x)
  obtain sep s' where x: "x = (sep, s')" by (cases x)
  from sentence_break_parts [of s sep s'] Some x have s: "s = sep @ s'" by simp
  from sentence_end_head [of "\<lparr>prev = p, rest = s, caps = Map.empty\<rparr>" s] Some x
  obtain st' more where "ms sentence_end \<lparr>prev = p, rest = s, caps = Map.empty\<rparr> = st' # more"
    and "rest st' = s'" and "caps st' = Map.empty"
    by auto
  with Some x s show ?thesis by (simp add: match_at_def)
qed

lemma match_at_group_sentence_end:
  "match_at (Group k sentence_end) p s = (case sentence_break s of None \<Rightarrow> None
     | Some (sep, s') \<Rightarrow> Some (length sep, [k \<mapsto> sep]))"
proof (cases "sentence_break s")
  case None
  with sentence_end_head [of "\<lparr>prev = p, rest = s, caps = Map.empty\<rparr>" s]
  show ?thesis by (simp add: match_at_def)
next
  case (Some x)
  obtain sep s' where x: "x = (sep, s')" by (cases x)
  from sentence_break_parts [of s sep s'] Some x have s: "s = sep @ s'" by simp
  from sentence_end_head [of "\<lparr>prev = p, rest = s, caps = Map.empty\<rparr>" s] Some x
  obtain st' more where "ms sentence_end \<lparr>prev = p, rest = s, caps = Map.empty\<rparr> = st' # more"
    and "rest st' = s'" and "caps st' = Map.empty"
    by auto
  with Some x s show ?thesis by (simp add: match_at_def consumed_def)
qed


lemma scan_no_break:
  "\<forall>y z. s = y @ z \<and> z \<noteq> [] \<longrightarrow> sentence_break z = None \<Longrightarrow> scan sentence_end p s = map Skip s"
proof (induction s arbitrary: p)
  case Nil
  show ?case by (simp add: match_at_sentence_end sentence_break_def)
next
  case (Cons c cs)
  from Cons.prems have "sentence_break (c # cs) = None" by blast
  moreover have "\<forall>y z. cs = y @ z \<and> z \<noteq> [] \<longrightarrow> sentence_break z = None"
  proof (intro allI impI)
    fix y z assume "cs = y @ z \<and> z \<noteq> []"
    then have "c # cs = (c # y) @ z \<and> z \<noteq> []" by simp
    with Cons.prems show "sentence_break z = None" by blast
  qed
  ultimately show ?case using Cons.IH by (simp add: match_at_sentence_end)
qed

lemma no_break_no_search:
  "\<forall>y z. s = y @ z \<and> z \<noteq> [] \<longrightarrow> sentence_break z = None \<Longrightarrow> \<not> search sentence_end s"
  by (simp add: search_def finditer_def scan_no_break hits_skips)

lemma break_alone:
  assumes "sentence_break (z @ s) = None" and "sentence_break s \<noteq> None"
  shows "sentence_break z = None"
proof (rule ccontr)
  assume "sentence_break z \<noteq> None"
  then have run: "takeWhile is_terminator z \<noteq> []"
    and after: "dropWhile is_terminator z = [] \<or> takeWhile is_space (dropWhile is_terminator z) \<noteq> []"
    by (auto simp: sentence_break_def Let_def split: if_splits)
  from assms(2) have
    s: "dropWhile is_terminator s = [] \<or> takeWhile is_space (dropWhile is_terminator s) \<noteq> []"
    by (auto simp: sentence_break_def Let_def split: if_splits)
  from run have z: "z \<noteq> []" by auto
  show False
  proof (cases "dropWhile is_terminator z = []")
    case True
    then have all: "\<forall>x\<in>set z. is_terminator x" by simp
    then have "takeWhile is_terminator (z @ s) = z @ takeWhile is_terminator s"
      and "dropWhile is_terminator (z @ s) = dropWhile is_terminator s"
      by simp_all
    with z s have "sentence_break (z @ s) \<noteq> None"
      by (simp add: sentence_break_def Let_def)
    with assms(1) show False by simp
  next
    case False
    then obtain x where x: "x \<in> set z" "\<not> is_terminator x" by auto
    then have t: "takeWhile is_terminator (z @ s) = takeWhile is_terminator z"
      and d: "dropWhile is_terminator (z @ s) = dropWhile is_terminator z @ s"
      by (simp_all add: takeWhile_append1 dropWhile_append1)
    from False after have "takeWhile is_space (dropWhile is_terminator z) \<noteq> []" by blast
    then have "takeWhile is_space (dropWhile is_terminator z @ s) \<noteq> []"
      by (cases "dropWhile is_terminator z") (auto split: if_splits)
    with run t d have "sentence_break (z @ s) \<noteq> None"
      by (simp add: sentence_break_def Let_def)
    with assms(1) show False by simp
  qed
qed

lemma separator_found:
  assumes "sentence_break s = Some (sep, s')"
  shows "search sentence_end sep"
proof -
  define run where "run = takeWhile is_terminator s"
  define ws where "ws = takeWhile is_space (dropWhile is_terminator s)"
  from assms have sep: "sep = run @ ws" and run: "run \<noteq> []"
    by (auto simp: sentence_break_def Let_def run_def ws_def split: if_splits)
  have all: "\<forall>x\<in>set run. is_terminator x"
    unfolding run_def by (auto dest: set_takeWhileD)
  have sp: "\<forall>x\<in>set ws. is_space x"
    unfolding ws_def by (auto dest: set_takeWhileD)
  have tw: "takeWhile is_terminator ws = []"
    using sp terminator_not_space by (cases ws) auto
  have t: "takeWhile is_terminator sep = run"
    using all tw by (simp add: sep)
  have d: "dropWhile is_terminator sep = ws"
    using all tw by (simp add: sep) (metis takeWhile_dropWhile_id self_append_conv2)
  have w: "takeWhile is_space ws = ws" using sp by simp
  have "sentence_break sep = Some (run @ ws, dropWhile is_space ws)"
    using run by (simp add: sentence_break_def Let_def t d w)
  then have m: "match_at sentence_end None sep = Some (length sep, Map.empty)"
    by (simp add: match_at_sentence_end sep)
  from run sep obtain c cs where c: "sep = c # cs" by (cases run) auto
  show ?thesis
    using m unfolding c by (simp add: search_def finditer_def)
qed

lemma collect_cut:
  assumes "\<forall>y z. cur = y @ z \<and> z \<noteq> [] \<longrightarrow> sentence_break (z @ s) = None"
  shows "(case collect (split_pieces (\<lambda>m g. [grp g 1]) (scan (Group 1 sentence_end) p s) cur) [] acc of
            (current, ss) \<Rightarrow> if strip current \<noteq> [] then ss @ [strip current] else ss)
         = acc @ filter (\<lambda>x. x \<noteq> []) (map strip (cut s cur))"
  using assms
proof (induction s cur arbitrary: p acc rule: cut.induct)
  case (1 cur)
  then have "\<not> search sentence_end cur" by (intro no_break_no_search) simp
  then show ?case
    by (simp add: match_at_group_sentence_end sentence_break_def Let_def)
next
  case (2 c cs cur)
  show ?case
  proof (cases "sentence_break (c # cs)")
    case None
    have inv: "\<forall>y z. cur @ [c] = y @ z \<and> z \<noteq> [] \<longrightarrow> sentence_break (z @ cs) = None"
    proof (intro allI impI)
      fix y z assume a: "cur @ [c] = y @ z \<and> z \<noteq> []"
      then obtain z' where z: "z = z' @ [c]"
        by (metis append_butlast_last_id last_appendR last_snoc)
      show "sentence_break (z @ cs) = None"
      proof (cases "z' = []")
        case True
        with z None show ?thesis by simp
      next
        case False
        from a z have "cur = y @ z'" by simp
        with False "2.prems" have "sentence_break (z' @ c # cs) = None" by blast
        with z show ?thesis by simp
      qed
    qed
    from "2.IH"(1) [OF None inv] None show ?thesis
      by (simp add: match_at_group_sentence_end)
  next
    case (Some x)
    obtain sep s' where x: "x = (sep, s')" by (cases x)
    with Some have br: "sentence_break (c # cs) = Some (sep, s')" by simp
    from sentence_break_parts [OF br] have s: "c # cs = sep @ s'" and ne: "sep \<noteq> []" by simp_all
    have take: "take (length sep) (c # cs) = sep" and drop: "drop (length sep) (c # cs) = s'"
      unfolding s by simp_all
    have quiet: "\<not> search sentence_end cur"
    proof (rule no_break_no_search, intro allI impI)
      fix y z assume "cur = y @ z \<and> z \<noteq> []"
      with "2.prems" have "sentence_break (z @ c # cs) = None" by blast
      then show "sentence_break z = None" by (rule break_alone) (simp add: br)
    qed
    have found: "search sentence_end sep" by (rule separator_found [OF br])
    have inv: "\<forall>y z. [] = y @ z \<and> z \<noteq> [] \<longrightarrow> sentence_break (z @ s') = None" by simp
    have sc: "scan (Group 1 sentence_end) p (c # cs)
        = Hit sep [1 \<mapsto> sep] # scan (Group 1 sentence_end) (Some (last sep)) s'"
      using ne by (simp add: match_at_group_sentence_end br take drop del: take_Suc_Cons drop_Suc_Cons)
    have ct: "cut (c # cs) cur = (cur @ sep) # cut s' []" by (simp add: br)
    show ?thesis
      unfolding sc ct
      using "2.IH"(2) [OF Some x [symmetric] inv, of "Some (last sep)"] quiet found
      by (simp add: grp_def Let_def)
  qed
qed

lemma split_into_sentences_kept: "split_into_sentences t = kept_sentences t"
  using collect_cut [of "[]" t None "[]"]
  by (simp add: split_into_sentences_def sentence_parts_def re_split_def kept_sentences_def)

lemma segmentation_examples:
  "split_into_sentences ''  plain text '' = [''plain text'']
   \<and> basic_sentences ''  plain text '' = [''plain text'']"
  by code_simp

text \<open>
  C5, as stated, fails for \<open>_split_into_sentences\<close>: it keeps the terminators in its
  sentences and does not cut at a terminator that text follows directly, so on
  \<open>Hi. a.b\<close> it returns \<open>Hi.\<close> and \<open>a.b\<close> where the reference gives \<open>Hi\<close>, \<open>a\<close>, \<open>b\<close>.
  And a document of one blank, which the constructor accepts, has no terminator and
  gives no sentence at all.
\<close>

theorem segmentation_counterexample:
  "split_into_sentences ''Hi. a.b'' = [''Hi.'', ''a.b'']
   \<and> reference_sentences ''Hi. a.b'' = [''Hi'', ''a'', ''b'']
   \<and> split_into_sentences '' '' = []
   \<and> basic_sentences '' '' = []"
  by code_simp

text \<open>
  C5, amended: for every document, the segmentation of \<open>_count_sentences\<close>
  (\<open>BasicTextAnalyzer\<close>) is the reference one, cut at every maximal run of terminators,
  trimmed, the empty spans dropped, and \<open>total_sentences\<close> is its length; the
  segmentation of \<open>_split_into_sentences\<close> is cut only behind a maximal run of
  terminators that whitespace or the end of the text follows, the run staying with the
  sentence, trimmed, the empty spans dropped; and a document with no terminator and with
  a character that is not whitespace gives exactly one sentence, the trimmed text, in
  both.
\<close>

theorem segmentation_reference:
  "basic_sentences t = reference_sentences t
   \<and> total_sentences (res (basic_count_sentences b)) = Some (length (reference_sentences (doc b)))
   \<and> split_into_sentences t = kept_sentences t
   \<and> ((\<forall>c\<in>set t. \<not> is_terminator c) \<and> (\<exists>c\<in>set t. \<not> is_space c)
        \<longrightarrow> split_into_sentences t = [strip t] \<and> basic_sentences t = [strip t])"
proof -
  have 0: "split_into_sentences t = kept_sentences t" by (rule split_into_sentences_kept)
  have 1: "basic_sentences t = reference_sentences t" by (rule basic_sentences_reference)
  have 2: "total_sentences (res (basic_count_sentences b)) = Some (length (reference_sentences (doc b)))"
    by (simp add: basic_count_sentences_def basic_sentences_reference)
  have 3: "split_into_sentences t = [strip t] \<and> basic_sentences t = [strip t]"
    if a: "\<forall>c\<in>set t. \<not> is_terminator c" and b: "\<exists>c\<in>set t. \<not> is_space c"
  proof -
    from b have ne: "strip t \<noteq> []" by (simp add: strip_empty)
    have "reference_sentences t = [strip t]"
      using ne by (simp add: reference_sentences_def spans_plain [OF a])
    with ne show ?thesis by (simp add: split_into_sentences_plain [OF a] 1)
  qed
  from 0 1 2 3 show ?thesis by blast
qed

theorem segmentation_reference_witness:
  "list_all (\<lambda>c. \<not> is_terminator c) ''  plain text '' \<and> list_ex (\<lambda>c. \<not> is_space c) ''  plain text ''
   \<and> split_into_sentences ''  plain text '' = [''plain text'']
   \<and> basic_sentences ''  plain text '' = [''plain text'']
   \<and> reference_sentences ''  plain text '' = [''plain text'']
   \<and> kept_sentences ''  plain text '' = [''plain text'']"
proof -
  have a: "\<forall>c\<in>set ''  plain text ''. \<not> is_terminator c" by (simp add: is_terminator_def)
  have b: "\<exists>c\<in>set ''  plain text ''. \<not> is_space c" by (simp add: is_space_def code_def)
  have "basic_sentences ''  plain text '' = reference_sentences ''  plain text ''"
    using segmentation_reference [of "''  plain text ''"] by blast
  then have r: "reference_sentences ''  plain text '' = [''plain text'']"
    using segmentation_examples by simp
  from a have a': "list_all (\<lambda>c. \<not> is_terminator c) ''  plain text ''"
    by (simp only: list_all_iff)
  from b have b': "list_ex (\<lambda>c. \<not> is_space c) ''  plain text ''"
    by (simp only: list_ex_iff)
  have "split_into_sentences ''  plain text '' = kept_sentences ''  plain text ''"
    using segmentation_reference [of "''  plain text ''"] by blast
  then have k: "kept_sentences ''  plain text '' = [''plain text'']"
    using segmentation_examples by simp
  from a' b' r k segmentation_examples show ?thesis by blast
qed

subsection \<open>E-mail addresses\<close>



lemma consumed_append:
  assumes "rest st = u @ rest st1" and "rest st1 = v @ rest st2"
  shows "consumed st st2 = consumed st st1 @ consumed st1 st2"
    and "consumed st st1 = u"
  using assms by (simp_all add: consumed_def)



























































end
